theory Spec2Isabelle
  imports Main "HOL-Library.AList" "HOL-Library.Sublist"
begin

section \<open>Stream alerts: data model\<close>

text \<open>
  The four row models of \<^verbatim>\<open>streamalerts/data.py\<close>. Timestamps are epoch seconds, a
  nullable column is an \<open>option\<close>. The two message columns hold JSON documents; they are
  kept here in parsed form.
\<close>

datatype json =
    JNull
  | JBool bool
  | JNum int
  | JStr string
  | JList "json list"
  | JDict "(string \<times> json) list"

record streamer =
  userid :: int
  login_name :: string
  display_name :: string

record alert_channel =
  subscriptionid :: int
  guildid :: int
  channelid :: int
  streamerid :: int
  created_by :: int
  created_at :: int
  paused :: bool
  end_delete :: bool
  live_message :: "json option"
  end_message :: "json option"

record stream =
  streamid :: int
  streamerid :: int
  start_at :: int
  twitch_stream_id :: int
  game_name :: string
  title :: string
  end_at :: "int option"

record stream_alert =
  alertid :: int
  streamid :: int
  subscriptionid :: int
  sent_at :: int
  messageid :: int
  resolved_at :: "int option"

text \<open>What the platform query returns for one live streamer.\<close>

record twitch_stream =
  stream_id :: int
  user_id :: int
  started_at :: int
  game_name :: string
  title :: string

section \<open>Exceptions and the outside world\<close>

text \<open>
  \<open>HTTPException\<close> is \<^verbatim>\<open>discord.HTTPException\<close> (with its subclasses), the classified
  delivery failure. The other constructors are exceptions outside that class.
\<close>

datatype exn = HTTPException | AttributeError | KeyError | UnexpectedError

datatype 'a outcome = Returns 'a | Raises exn

datatype completion = Normal | Raised exn

text \<open>
  A channel as \<^verbatim>\<open>sub_alert\<close> looks at it: whether it is a \<^verbatim>\<open>Messageable\<close>, and the two
  permission bits of the bot's own member there.
\<close>

record channel =
  messageable :: bool
  send_messages :: bool
  embed_links :: bool

text \<open>Every call made to the messaging service, in the order made (oldest first).\<close>

datatype call =
    Send int json
  | FetchMessage int int
  | DeleteMessage int int
  | EditMessage int int json

text \<open>
  The collaborators the cog calls and does not implement. Each answer may depend on
  the calls made so far, so the same request can be answered differently later on.
  \<open>value_to_args\<close> is \<^verbatim>\<open>MessageSetting.value_to_args\<close>; the arguments it builds are
  represented by a JSON value. \<open>clock n\<close> is the \<open>n\<close>-th reading of \<^verbatim>\<open>utc_now()\<close>.
\<close>

record env =
  get_channel :: "call list \<Rightarrow> int \<Rightarrow> channel option"
  send :: "call list \<Rightarrow> int \<Rightarrow> json \<Rightarrow> int outcome"
  fetch_message :: "call list \<Rightarrow> int \<Rightarrow> int \<Rightarrow> unit outcome"
  delete_message :: "call list \<Rightarrow> int \<Rightarrow> int \<Rightarrow> unit outcome"
  edit_message :: "call list \<Rightarrow> int \<Rightarrow> int \<Rightarrow> json \<Rightarrow> unit outcome"
  value_to_args :: "int \<Rightarrow> json option \<Rightarrow> json outcome"
  clock :: "nat \<Rightarrow> int"
  get_streams :: "int list \<Rightarrow> twitch_stream list outcome"

section \<open>Template substitution\<close>

text \<open>Python's \<^verbatim>\<open>str\<close> of an integer.\<close>

fun digits :: "nat \<Rightarrow> string" where
  "digits n = (if n < 10 then [char_of (48 + n)] else digits (n div 10) @ [char_of (48 + n mod 10)])"

declare digits.simps [simp del]

definition str_int :: "int \<Rightarrow> string" where
  "str_int i = (if i < 0 then CHR ''-'' # digits (nat (- i)) else digits (nat i))"

text \<open>
  Modelled from the spec: \<^verbatim>\<open>replace_multiple\<close> of \<^verbatim>\<open>utils.lib\<close>, which is not part of
  these sources. One pass from the left; at each position the first token of the
  mapping that starts there is replaced by its value, and what was substituted is not
  scanned again.
\<close>

fun first_match :: "(string \<times> string) list \<Rightarrow> string \<Rightarrow> (string \<times> string) option" where
  "first_match [] s = None"
| "first_match ((k, v) # m) s =
     (if k \<noteq> [] \<and> prefix k s then Some (v, drop (length k) s) else first_match m s)"

function replace_multiple :: "string \<Rightarrow> (string \<times> string) list \<Rightarrow> string" where
  "replace_multiple [] m = []"
| "replace_multiple (c # cs) m =
     (case first_match m (c # cs) of
        Some (v, r) \<Rightarrow> v @ replace_multiple r m
      | None \<Rightarrow> c # replace_multiple cs m)"
  by pat_completeness auto
termination
proof (relation "measure (\<lambda>(s, m). length s)")
  have shorter: "first_match m s = Some (v, r) \<Longrightarrow> length r < length s" for m s v r
    by (induction m) (auto split: if_splits simp: prefix_def)
  fix c cs m x2 v r
  assume "first_match m (c # cs) = Some x2" and "(v, r) = x2"
  then show "((r, m), c # cs, m) \<in> measure (\<lambda>(s, m). length s)"
    using shorter[of m "c # cs" v r] by simp
qed simp_all

text \<open>
  Modelled from the spec: \<^verbatim>\<open>recurse_map\<close> of \<^verbatim>\<open>utils.lib\<close>. The function is applied to
  every leaf; mappings and sequences keep their shape.
\<close>

fun recurse_map :: "(json \<Rightarrow> json) \<Rightarrow> json \<Rightarrow> json" where
  "recurse_map f (JDict kvs) = JDict (map (\<lambda>(k, v). (k, recurse_map f v)) kvs)"
| "recurse_map f (JList xs) = JList (map (recurse_map f) xs)"
| "recurse_map f v = f v"

text \<open>Python's truth value of a JSON value: \<^verbatim>\<open>not data_dict\<close> is \<open>\<not> truthy\<close>.\<close>

fun truthy :: "json \<Rightarrow> bool" where
  "truthy JNull = False"
| "truthy (JBool b) = b"
| "truthy (JNum n) = (n \<noteq> 0)"
| "truthy (JStr s) = (s \<noteq> [])"
| "truthy (JList xs) = (xs \<noteq> [])"
| "truthy (JDict kvs) = (kvs \<noteq> [])"

text \<open>The lambda handed to \<^verbatim>\<open>recurse_map\<close>: strings are substituted, other leaves kept.\<close>

definition substitute :: "(string \<times> string) list \<Rightarrow> json \<Rightarrow> json" where
  "substitute mapping v = (case v of JStr s \<Rightarrow> JStr (replace_multiple s mapping) | _ \<Rightarrow> v)"

text \<open>\<^verbatim>\<open>AlertMessage.generate_formatter\<close>: the formatter for the go-live message.\<close>

definition live_mapping :: "stream \<Rightarrow> streamer \<Rightarrow> (string \<times> string) list" where
  "live_mapping st sr =
     [(''{display_name}'', display_name sr),
      (''{login_name}'', login_name sr),
      (''{channel_link}'', ''https://www.twitch.tv/'' @ login_name sr),
      (''{stream_start}'', str_int (start_at st))]"

definition live_formatter :: "stream \<Rightarrow> streamer \<Rightarrow> json option \<Rightarrow> json option" where
  "live_formatter st sr data_dict =
     (case data_dict of
        None \<Rightarrow> None
      | Some d \<Rightarrow>
          if \<not> truthy d then None
          else Some (recurse_map (substitute (live_mapping st sr)) d))"

text \<open>
  \<^verbatim>\<open>AlertEndMessage.generate_formatter\<close>. The mapping is built after the emptiness test;
  building it reads \<^verbatim>\<open>streamer.display_name\<close> and \<^verbatim>\<open>stream.end_at.timestamp()\<close>, which
  raise \<^verbatim>\<open>AttributeError\<close> on \<^verbatim>\<open>None\<close>.
\<close>

definition end_mapping :: "stream \<Rightarrow> streamer \<Rightarrow> int \<Rightarrow> (string \<times> string) list" where
  "end_mapping st sr e =
     [(''{display_name}'', display_name sr),
      (''{login_name}'', login_name sr),
      (''{channel_link}'', ''https://www.twitch.tv/'' @ login_name sr),
      (''{stream_start}'', str_int (start_at st)),
      (''{stream_end}'', str_int e)]"

definition end_formatter :: "stream \<Rightarrow> streamer option \<Rightarrow> json option \<Rightarrow> json option outcome" where
  "end_formatter st sro data_dict =
     (case data_dict of
        None \<Rightarrow> Returns None
      | Some d \<Rightarrow>
          if \<not> truthy d then Returns None
          else (case sro of
                  None \<Rightarrow> Raises AttributeError
                | Some sr \<Rightarrow>
                    (case end_at st of
                       None \<Rightarrow> Raises AttributeError
                     | Some e \<Rightarrow> Returns (Some (recurse_map (substitute (end_mapping st sr e)) d)))))"

section \<open>State\<close>

text \<open>
  A task forked by the poll loop: \<^verbatim>\<open>on_stream_start(stream_data)\<close> or
  \<^verbatim>\<open>on_stream_end(stream_data)\<close>, with the row it was given.
\<close>

datatype event = StreamStart stream | StreamEnd stream

text \<open>
  The four tables with their two \<^verbatim>\<open>SERIAL\<close> counters, the cog's two caches (Python
  dictionaries, kept in insertion order), the page index of the poll loop, the tasks
  forked so far, the calls made to the messaging service and the number of clock
  readings taken.
\<close>

record state =
  streamers :: "streamer list"
  alert_channels :: "alert_channel list"
  streams :: "stream list"
  stream_alerts :: "stream_alert list"
  next_streamid :: int
  next_alertid :: int
  watching :: "(int \<times> streamer) list"
  live_streams :: "(int \<times> stream) list"
  block_i :: nat
  event_tasks :: "event list"
  trace :: "call list"
  ticks :: nat

definition utc_now :: "env \<Rightarrow> state \<Rightarrow> int \<times> state" where
  "utc_now E s = (clock E (ticks s), s\<lparr>ticks := Suc (ticks s)\<rparr>)"

subsection \<open>Table access\<close>

text \<open>\<^verbatim>\<open>Streamer.fetch(userid)\<close>: the row with that primary key, or \<^verbatim>\<open>None\<close>.\<close>

definition Streamer_fetch :: "state \<Rightarrow> int \<Rightarrow> streamer option" where
  "Streamer_fetch s uid = find (\<lambda>r. userid r = uid) (streamers s)"

text \<open>\<^verbatim>\<open>AlertChannel.fetch_where(streamerid=uid)\<close>.\<close>

definition AlertChannel_fetch_where :: "state \<Rightarrow> int \<Rightarrow> alert_channel list" where
  "AlertChannel_fetch_where s uid = filter (\<lambda>r. alert_channel.streamerid r = uid) (alert_channels s)"

text \<open>\<^verbatim>\<open>StreamAlert.fetch_where(streamid=.., subscriptionid=..)\<close>, in table order.\<close>

definition StreamAlert_fetch_where :: "state \<Rightarrow> int \<Rightarrow> int \<Rightarrow> stream_alert list" where
  "StreamAlert_fetch_where s stid subid =
     filter (\<lambda>r. stream_alert.streamid r = stid \<and> stream_alert.subscriptionid r = subid) (stream_alerts s)"

text \<open>\<^verbatim>\<open>StreamAlert.create(..)\<close>: the new row takes the next \<open>alertid\<close> and is unresolved.\<close>

definition StreamAlert_create :: "int \<Rightarrow> int \<Rightarrow> int \<Rightarrow> int \<Rightarrow> state \<Rightarrow> state" where
  "StreamAlert_create stid subid sent mid s =
     s\<lparr>stream_alerts := stream_alerts s @
          [\<lparr>alertid = next_alertid s, stream_alert.streamid = stid,
            stream_alert.subscriptionid = subid,
            sent_at = sent, messageid = mid, resolved_at = None\<rparr>],
       next_alertid := next_alertid s + 1\<rparr>"

text \<open>\<^verbatim>\<open>alert.update(resolved_at=..)\<close>: an update of the row with the alert's primary key.\<close>

definition StreamAlert_update :: "int \<Rightarrow> int \<Rightarrow> state \<Rightarrow> state" where
  "StreamAlert_update aid t s =
     s\<lparr>stream_alerts :=
          map (\<lambda>r. if alertid r = aid then r\<lparr>resolved_at := Some t\<rparr> else r) (stream_alerts s)\<rparr>"

text \<open>\<^verbatim>\<open>Stream.create(..)\<close>: the new row takes the next \<open>streamid\<close> and is open.\<close>

definition Stream_create :: "twitch_stream \<Rightarrow> state \<Rightarrow> stream \<times> state" where
  "Stream_create ts s =
     (let row = \<lparr>stream.streamid = next_streamid s, stream.streamerid = user_id ts,
                 stream.start_at = started_at ts, stream.twitch_stream_id = stream_id ts,
                 stream.game_name = twitch_stream.game_name ts,
                 stream.title = twitch_stream.title ts, stream.end_at = None\<rparr>
      in (row, s\<lparr>streams := streams s @ [row], next_streamid := next_streamid s + 1\<rparr>))"

text \<open>\<^verbatim>\<open>stream_data.update(end_at=..)\<close>: the table row and the row object both change.\<close>

definition Stream_update :: "stream \<Rightarrow> int \<Rightarrow> state \<Rightarrow> stream \<times> state" where
  "Stream_update row t s =
     (row\<lparr>end_at := Some t\<rparr>,
      s\<lparr>streams :=
           map (\<lambda>r. if stream.streamid r = stream.streamid row then r\<lparr>end_at := Some t\<rparr> else r)
             (streams s)\<rparr>)"

subsection \<open>Settings of one subscription\<close>

text \<open>
  \<^verbatim>\<open>AlertConfig(..).get(setting_id).value\<close> reads the setting's column of the
  subscription row; a message setting whose column is null has its default.
\<close>

definition default_live_message :: json where
  "default_live_message =
     JDict [(''content'', JStr ''**{display_name}** just went live at {channel_link}'')]"

definition live_message_value :: "alert_channel \<Rightarrow> json option" where
  "live_message_value sub =
     (case live_message sub of None \<Rightarrow> Some default_live_message | Some d \<Rightarrow> Some d)"

definition end_message_value :: "alert_channel \<Rightarrow> json option" where
  "end_message_value sub = end_message sub"

definition truthy_opt :: "json option \<Rightarrow> bool" where
  "truthy_opt v = (case v of None \<Rightarrow> False | Some d \<Rightarrow> truthy d)"

section \<open>Dispatch: a stream has started\<close>

text \<open>\<^verbatim>\<open>subscription_error\<close> only writes a log line.\<close>

definition subscription_error :: "state \<Rightarrow> state" where
  "subscription_error s = s"

definition sub_alert :: "env \<Rightarrow> alert_channel \<Rightarrow> stream \<Rightarrow> state \<Rightarrow> completion \<times> state" where
  "sub_alert E subscription stream_data s =
     (case get_channel E (trace s) (channelid subscription) of
        None \<Rightarrow> (Normal, subscription_error s)
      | Some channel \<Rightarrow>
          if \<not> messageable channel then (Normal, subscription_error s)
          else if \<not> (send_messages channel \<and> embed_links channel) then (Normal, subscription_error s)
          else
            (case Streamer_fetch s (stream.streamerid stream_data) of
               None \<Rightarrow> (Normal, s)
             | Some streamer \<Rightarrow>
                 if paused subscription then (Normal, s)
                 else
                   (case value_to_args E (alert_channel.subscriptionid subscription)
                           (live_formatter stream_data streamer (live_message_value subscription)) of
                      Raises e \<Rightarrow> (Raised e, s)
                    | Returns args \<Rightarrow>
                        (let s1 = s\<lparr>trace := trace s @ [Send (channelid subscription) args]\<rparr> in
                         case send E (trace s) (channelid subscription) args of
                           Raises e \<Rightarrow>
                             if e = HTTPException then (Normal, subscription_error s1)
                             else (Raised e, s1)
                         | Returns mid \<Rightarrow>
                             (let (now, s2) = utc_now E s1 in
                              (Normal,
                               StreamAlert_create (stream.streamid stream_data)
                                 (alert_channel.subscriptionid subscription) now mid s2))))))"

text \<open>
  The loop of \<^verbatim>\<open>on_stream_start\<close>: \<^verbatim>\<open>HTTPException\<close> is logged and the loop goes on, any
  other exception is logged and raised again.
\<close>

fun fulfil :: "env \<Rightarrow> stream \<Rightarrow> alert_channel list \<Rightarrow> state \<Rightarrow> completion \<times> state" where
  "fulfil E stream_data [] s = (Normal, s)"
| "fulfil E stream_data (sub # subbed) s =
     (case sub_alert E sub stream_data s of
        (Normal, s') \<Rightarrow> fulfil E stream_data subbed s'
      | (Raised e, s') \<Rightarrow>
          if e = HTTPException then fulfil E stream_data subbed s'
          else (Raised e, s'))"

definition on_stream_start :: "env \<Rightarrow> stream \<Rightarrow> state \<Rightarrow> completion \<times> state" where
  "on_stream_start E stream_data s =
     fulfil E stream_data (AlertChannel_fetch_where s (stream.streamerid stream_data)) s"

section \<open>Resolution: a stream has ended\<close>

text \<open>
  The block of \<^verbatim>\<open>sub_resolve\<close> under \<^verbatim>\<open>if (delmsg := del_setting.value) or
  (edit_setting.value)\<close>: find the message, then delete it or edit it.
\<close>

definition resolve_message :: "env \<Rightarrow> alert_channel \<Rightarrow> stream \<Rightarrow> stream_alert \<Rightarrow> state \<Rightarrow> completion \<times> state" where
  "resolve_message E subscription stream_data alert s =
     (case get_channel E (trace s) (channelid subscription) of
        None \<Rightarrow> (Normal, s)
      | Some channel \<Rightarrow>
          (let s1 = s\<lparr>trace := trace s @ [FetchMessage (channelid subscription) (messageid alert)]\<rparr> in
           case fetch_message E (trace s) (channelid subscription) (messageid alert) of
             Raises e \<Rightarrow> if e = HTTPException then (Normal, s1) else (Raised e, s1)
           | Returns message \<Rightarrow>
               if end_delete subscription then
                 (let s2 = s1\<lparr>trace := trace s1 @ [DeleteMessage (channelid subscription) (messageid alert)]\<rparr> in
                  case delete_message E (trace s1) (channelid subscription) (messageid alert) of
                    Raises e \<Rightarrow> if e = HTTPException then (Normal, s2) else (Raised e, s2)
                  | Returns u \<Rightarrow> (Normal, s2))
               else
                 (case end_formatter stream_data (Streamer_fetch s1 (stream.streamerid stream_data))
                         (end_message_value subscription) of
                    Raises e \<Rightarrow> (Raised e, s1)
                  | Returns formatted \<Rightarrow>
                      (case value_to_args E (alert_channel.subscriptionid subscription) formatted of
                         Raises e \<Rightarrow> (Raised e, s1)
                       | Returns args \<Rightarrow>
                           (let s2 = s1\<lparr>trace := trace s1 @
                                       [EditMessage (channelid subscription) (messageid alert) args]\<rparr> in
                            case edit_message E (trace s1) (channelid subscription) (messageid alert) args of
                              Raises e \<Rightarrow> if e = HTTPException then (Normal, s2) else (Raised e, s2)
                            | Returns u \<Rightarrow> (Normal, s2))))))"

definition sub_resolve :: "env \<Rightarrow> alert_channel \<Rightarrow> stream \<Rightarrow> state \<Rightarrow> completion \<times> state" where
  "sub_resolve E subscription stream_data s =
     (case StreamAlert_fetch_where s (stream.streamid stream_data)
             (alert_channel.subscriptionid subscription) of
        [] \<Rightarrow> (Normal, s)
      | alert # rest \<Rightarrow>
          if resolved_at alert \<noteq> None then (Normal, s)
          else
            (case (if end_delete subscription \<or> truthy_opt (end_message_value subscription)
                   then resolve_message E subscription stream_data alert s
                   else (Normal, s)) of
               (Raised e, s1) \<Rightarrow> (Raised e, s1)
             | (Normal, s1) \<Rightarrow>
                 (let (now, s2) = utc_now E s1 in
                  (Normal, StreamAlert_update (alertid alert) now s2))))"

fun resolve_all :: "env \<Rightarrow> stream \<Rightarrow> alert_channel list \<Rightarrow> state \<Rightarrow> completion \<times> state" where
  "resolve_all E stream_data [] s = (Normal, s)"
| "resolve_all E stream_data (sub # subbed) s =
     (case sub_resolve E sub stream_data s of
        (Normal, s') \<Rightarrow> resolve_all E stream_data subbed s'
      | (Raised e, s') \<Rightarrow>
          if e = HTTPException then resolve_all E stream_data subbed s'
          else (Raised e, s'))"

definition on_stream_end :: "env \<Rightarrow> stream \<Rightarrow> state \<Rightarrow> completion \<times> state" where
  "on_stream_end E stream_data s =
     resolve_all E stream_data (AlertChannel_fetch_where s (stream.streamerid stream_data)) s"

section \<open>The poller\<close>

text \<open>
  Modelled from the spec: the condition \<^verbatim>\<open>Stream.end_at != NULL\<close> is built by the data
  library, which is not part of these sources; as a filter it is the test "is not
  null", so \<^verbatim>\<open>Stream.fetch_where(Stream.end_at != NULL)\<close> returns the rows whose end
  time is set.
\<close>

definition Stream_fetch_where_end_at_not_NULL :: "state \<Rightarrow> stream list" where
  "Stream_fetch_where_end_at_not_NULL s = filter (\<lambda>r. end_at r \<noteq> None) (streams s)"

text \<open>
  \<^verbatim>\<open>load_subs\<close>. The value of \<^verbatim>\<open>to_watch.union(..)\<close> is a new set, which the statement
  drops; \<^verbatim>\<open>to_watch\<close> itself stays as it was.
\<close>

definition load_subs :: "state \<Rightarrow> state" where
  "load_subs s =
     (let active_subs = alert_channels s;
          to_watch = set (map alert_channel.streamerid active_subs);
          live = Stream_fetch_where_end_at_not_NULL s;
          dropped = to_watch \<union> set (map stream.streamerid live);
          watching' =
            (if to_watch \<noteq> {}
             then fold (\<lambda>sr w. AList.update (userid sr) sr w)
                    (filter (\<lambda>sr. userid sr \<in> to_watch) (streamers s)) []
             else [])
      in s\<lparr>watching := watching',
           live_streams := fold (\<lambda>r d. AList.update (stream.streamerid r) r d) live []\<rparr>)"

text \<open>
  \<^verbatim>\<open>[to_request[i:i+100] for i in range(0, len(to_request), 100)]\<close>: the \<open>j\<close>-th slice
  starts at index \<open>100 * j\<close>.
\<close>

definition blocks_of :: "int list \<Rightarrow> int list list" where
  "blocks_of to_request =
     map (\<lambda>j. take 100 (drop (100 * j) to_request)) [0..<(length to_request + 99) div 100]"

text \<open>The page index after \<^verbatim>\<open>block_i += 1; block_i %= len(blocks)\<close>, and the page.\<close>

definition next_block_i :: "state \<Rightarrow> nat" where
  "next_block_i s = (block_i s + 1) mod length (blocks_of (map fst (watching s)))"

definition poll_block :: "state \<Rightarrow> int list" where
  "poll_block s = blocks_of (map fst (watching s)) ! next_block_i s"

text \<open>The dictionary \<^verbatim>\<open>streaming\<close> built from the answer of the platform.\<close>

definition collect_streaming :: "twitch_stream list \<Rightarrow> (int \<times> twitch_stream) list" where
  "collect_streaming results = fold (\<lambda>st d. AList.update (user_id st) st d) results []"

text \<open>
  The two set differences. A Python set has no defined iteration order; the lists
  below fix one, and nothing proved here depends on it.
\<close>

definition started_ids :: "(int \<times> twitch_stream) list \<Rightarrow> (int \<times> stream) list \<Rightarrow> int list" where
  "started_ids streaming live = filter (\<lambda>k. k \<notin> set (map fst live)) (map fst streaming)"

definition ended_ids :: "(int \<times> twitch_stream) list \<Rightarrow> (int \<times> stream) list \<Rightarrow> int list" where
  "ended_ids streaming live = filter (\<lambda>k. k \<notin> set (map fst streaming)) (map fst live)"

text \<open>A loop whose body may raise: the first exception ends it.\<close>

fun for_each :: "('a \<Rightarrow> state \<Rightarrow> completion \<times> state) \<Rightarrow> 'a list \<Rightarrow> state \<Rightarrow> completion \<times> state" where
  "for_each body [] s = (Normal, s)"
| "for_each body (x # xs) s =
     (case body x s of
        (Normal, s') \<Rightarrow> for_each body xs s'
      | (Raised e, s') \<Rightarrow> (Raised e, s'))"

text \<open>The body of \<^verbatim>\<open>for streamerid in started\<close>.\<close>

definition start_stream :: "(int \<times> twitch_stream) list \<Rightarrow> int \<Rightarrow> state \<Rightarrow> completion \<times> state" where
  "start_stream streaming sid s =
     (case map_of streaming sid of
        None \<Rightarrow> (Raised KeyError, s)
      | Some ts \<Rightarrow>
          (let (stream_data, s1) = Stream_create ts s in
           (Normal,
            s1\<lparr>live_streams := AList.update sid stream_data (live_streams s1),
               event_tasks := event_tasks s1 @ [StreamStart stream_data]\<rparr>)))"

text \<open>The body of \<^verbatim>\<open>for streamerid in ended\<close>.\<close>

definition end_stream :: "env \<Rightarrow> int \<Rightarrow> state \<Rightarrow> completion \<times> state" where
  "end_stream E sid s =
     (case map_of (live_streams s) sid of
        None \<Rightarrow> (Raised KeyError, s)
      | Some stream_data \<Rightarrow>
          (let s1 = s\<lparr>live_streams := AList.delete sid (live_streams s)\<rparr>;
               (now, s2) = utc_now E s1;
               (closed, s3) = Stream_update stream_data now s2
           in (Normal, s3\<lparr>event_tasks := event_tasks s3 @ [StreamEnd closed]\<rparr>)))"

text \<open>
  One turn of the loop of \<^verbatim>\<open>poll_live\<close>, after the sleep. The forked tasks are put
  into \<open>event_tasks\<close>; they are not run here.
\<close>

definition poll_cycle :: "env \<Rightarrow> state \<Rightarrow> completion \<times> state" where
  "poll_cycle E s =
     (if map fst (watching s) = [] then (Normal, s)
      else
        (let block = poll_block s;
             s0 = s\<lparr>block_i := next_block_i s\<rparr>
         in case get_streams E block of
              Raises e \<Rightarrow> (Raised e, s0)
            | Returns results \<Rightarrow>
                (let streaming = collect_streaming results;
                     started = started_ids streaming (live_streams s0);
                     ended = ended_ids streaming (live_streams s0)
                 in case for_each (start_stream streaming) started s0 of
                      (Raised e, s1) \<Rightarrow> (Raised e, s1)
                    | (Normal, s1) \<Rightarrow> for_each (end_stream E) ended s1)))"

section \<open>Vocabulary of the properties\<close>


text \<open>The calls that change a posted message.\<close>

fun is_mutation :: "call \<Rightarrow> bool" where
  "is_mutation (DeleteMessage c m) = True"
| "is_mutation (EditMessage c m a) = True"
| "is_mutation x = False"

section \<open>Concrete scenarios\<close>

text \<open>
  A small world used to run the definitions: channel 13 is gone, sending to channel 10
  fails with the classified failure and to channel 11 with another exception, deleting
  a message always fails with the classified failure, and the platform reports the
  streamers 5, 101 and 102 as live.
\<close>

definition channel_ok :: channel where
  "channel_ok = \<lparr>messageable = True, send_messages = True, embed_links = True\<rparr>"

definition tw :: "int \<Rightarrow> twitch_stream" where
  "tw k = \<lparr>stream_id = 5000 + k, user_id = k, started_at = 1000,
           twitch_stream.game_name = ''chess'', twitch_stream.title = ''hello''\<rparr>"

definition env0 :: env where
  "env0 = \<lparr>get_channel = (\<lambda>h c. if c = 13 then None else Some channel_ok),
           send = (\<lambda>h c a. if c = 10 then Raises HTTPException
                           else if c = 11 then Raises UnexpectedError
                           else Returns (900 + int (length h))),
           fetch_message = (\<lambda>h c m. Returns ()),
           delete_message = (\<lambda>h c m. Raises HTTPException),
           edit_message = (\<lambda>h c m a. Returns ()),
           value_to_args = (\<lambda>sid f. case f of None \<Rightarrow> Raises AttributeError | Some d \<Rightarrow> Returns d),
           clock = (\<lambda>n. 2000 + int n),
           get_streams = (\<lambda>block. Returns (map tw (filter (\<lambda>k. k = 5 \<or> k = 101 \<or> k = 102) block)))\<rparr>"

definition alice :: streamer where
  "alice = \<lparr>userid = 7, login_name = ''alice'', display_name = ''Alice''\<rparr>"

definition sub_a :: alert_channel where
  "sub_a = \<lparr>alert_channel.subscriptionid = 1, guildid = 100, channelid = 12,
            alert_channel.streamerid = 7, created_by = 5, created_at = 900,
            paused = False, end_delete = True, live_message = None,
            end_message = Some (JDict [(''content'', JStr ''{display_name} went offline'')])\<rparr>"

definition sub_b :: alert_channel where
  "sub_b = sub_a\<lparr>alert_channel.subscriptionid := 2, channelid := 10\<rparr>"

definition sub_c :: alert_channel where
  "sub_c = sub_a\<lparr>alert_channel.subscriptionid := 3, channelid := 11\<rparr>"

definition sub_p :: alert_channel where
  "sub_p = sub_a\<lparr>alert_channel.subscriptionid := 4, channelid := 14,
                 alert_channel.streamerid := 101, paused := True\<rparr>"

definition st0 :: stream where
  "st0 = \<lparr>stream.streamid = 1, stream.streamerid = 7, start_at = 1000, twitch_stream_id = 55,
          stream.game_name = ''chess'', stream.title = ''hello'', end_at = Some 1900\<rparr>"

definition alert0 :: stream_alert where
  "alert0 = \<lparr>alertid = 1, stream_alert.streamid = 1, stream_alert.subscriptionid = 1,
             sent_at = 1001, messageid = 900, resolved_at = None\<rparr>"

definition alert1 :: stream_alert where
  "alert1 = alert0\<lparr>alertid := 2, messageid := 901\<rparr>"

definition s0 :: state where
  "s0 = \<lparr>streamers = [alice], alert_channels = [sub_a], streams = [st0], stream_alerts = [],
         next_streamid = 2, next_alertid = 1, watching = [(7, alice)], live_streams = [],
         block_i = 0, event_tasks = [], trace = [], ticks = 0\<rparr>"

text \<open>One open alert; two alerts for the same pair; three subscriptions of the streamer.\<close>

definition s_alert :: state where
  "s_alert = s0\<lparr>stream_alerts := [alert0]\<rparr>"

definition s_two :: state where
  "s_two = s0\<lparr>stream_alerts := [alert0, alert1]\<rparr>"

definition s_subs :: state where
  "s_subs = s0\<lparr>alert_channels := [sub_b, sub_c, sub_a]\<rparr>"

text \<open>
  A watch-set of 101 streamers, that is two pages; streamer 5, on the first page, is
  in the live cache, and the next page to be queried is the second, \<open>[101]\<close>.
\<close>

definition s_big :: state where
  "s_big = s0\<lparr>watching := map (\<lambda>k. (k, \<lparr>userid = k, login_name = ''u'', display_name = ''U''\<rparr>)) [1..101],
             live_streams := [(5, st0\<lparr>stream.streamerid := 5, end_at := None\<rparr>)]\<rparr>"

text \<open>
  The tables at a restart: a subscription to streamer 1, an open stream of streamer 2
  and a closed stream of streamer 3.
\<close>

definition s_restart :: state where
  "s_restart = s0\<lparr>
     streamers := [alice\<lparr>userid := 1\<rparr>, alice\<lparr>userid := 2\<rparr>, alice\<lparr>userid := 3\<rparr>],
     alert_channels := [sub_a\<lparr>alert_channel.streamerid := 1\<rparr>],
     streams := [st0\<lparr>stream.streamid := 1, stream.streamerid := 2, end_at := None\<rparr>,
                 st0\<lparr>stream.streamid := 2, stream.streamerid := 3, end_at := Some 1900\<rparr>],
     watching := [], live_streams := []\<rparr>"

text \<open>The go-live message for alice, and the states the dispatch scenarios pass through.\<close>

definition alice_live :: json where
  "alice_live = JDict [(''content'', JStr ''**Alice** just went live at https://www.twitch.tv/alice'')]"

definition s_sent :: state where
  "s_sent = s0\<lparr>stream_alerts :=
       [\<lparr>alertid = 1, stream_alert.streamid = 1, stream_alert.subscriptionid = 1,
         sent_at = 2000, messageid = 900, resolved_at = None\<rparr>],
     next_alertid := 2, trace := [Send 12 alice_live], ticks := 1\<rparr>"

definition s_subs1 :: state where
  "s_subs1 = s_subs\<lparr>trace := [Send 10 alice_live]\<rparr>"

definition s_subs2 :: state where
  "s_subs2 = s_subs\<lparr>trace := [Send 10 alice_live, Send 11 alice_live]\<rparr>"

section \<open>Resolution: what one call does\<close>

text \<open>Finding and changing the message touches nothing but the list of calls.\<close>

lemma resolve_message_frame:
  "resolve_message E sub st a s = (c, s') \<Longrightarrow> s' = s\<lparr>trace := trace s'\<rparr>"
  by (auto simp: resolve_message_def Let_def split: option.splits outcome.splits if_splits)

text \<open>It deletes or edits at most once.\<close>

lemma resolve_message_trace:
  "resolve_message E sub st a s = (c, s') \<Longrightarrow>
     \<exists>new. trace s' = trace s @ new \<and> length (filter is_mutation new) \<le> 1"
  by (auto simp: resolve_message_def Let_def split: option.splits outcome.splits if_splits)


lemma fetch_where_trace [simp]:
  "StreamAlert_fetch_where (s\<lparr>trace := tr\<rparr>) a b = StreamAlert_fetch_where s a b"
  by (simp add: StreamAlert_fetch_where_def)

lemma fetch_where_ticks [simp]:
  "StreamAlert_fetch_where (s\<lparr>ticks := n\<rparr>) a b = StreamAlert_fetch_where s a b"
  by (simp add: StreamAlert_fetch_where_def)

lemma fetch_where_update:
  "StreamAlert_fetch_where (StreamAlert_update aid t s) a b =
     map (\<lambda>r. if alertid r = aid then r\<lparr>resolved_at := Some t\<rparr> else r) (StreamAlert_fetch_where s a b)"
  by (simp add: StreamAlert_fetch_where_def StreamAlert_update_def filter_map o_def cong: filter_cong)

lemma fetch_where_alerts [simp]:
  "StreamAlert_fetch_where (s\<lparr>stream_alerts := xs\<rparr>) a b =
     filter (\<lambda>r. stream_alert.streamid r = a \<and> stream_alert.subscriptionid r = b) xs"
  by (simp add: StreamAlert_fetch_where_def)

text \<open>What a call of \<^verbatim>\<open>sub_resolve\<close> that meets an open alert and returns does to the state.\<close>

lemma sub_resolve_open:
  assumes "StreamAlert_fetch_where s (stream.streamid st) (alert_channel.subscriptionid sub) = alert # rest"
    and "resolved_at alert = None"
    and "sub_resolve E sub st s = (Normal, s')"
  shows "\<exists>new. length (filter is_mutation new) \<le> 1 \<and>
           s' = StreamAlert_update (alertid alert) (clock E (ticks s))
                  (s\<lparr>trace := trace s @ new, ticks := Suc (ticks s)\<rparr>)"
proof (cases "end_delete sub \<or> truthy_opt (end_message_value sub)")
  case True
  obtain c s1 where r: "resolve_message E sub st alert s = (c, s1)"
    by (cases "resolve_message E sub st alert s")
  with assms True have c: "c = Normal"
    and s': "s' = StreamAlert_update (alertid alert) (clock E (ticks s1)) (s1\<lparr>ticks := Suc (ticks s1)\<rparr>)"
    by (auto simp: sub_resolve_def utc_now_def split: completion.splits)
  from resolve_message_frame[OF r] have f: "s1 = s\<lparr>trace := trace s1\<rparr>" .
  from resolve_message_trace[OF r] obtain new where
    n: "trace s1 = trace s @ new" "length (filter is_mutation new) \<le> 1" by blast
  have "ticks s1 = ticks s" by (subst f) simp
  moreover have "s1\<lparr>ticks := Suc (ticks s)\<rparr> = s\<lparr>trace := trace s @ new, ticks := Suc (ticks s)\<rparr>"
    by (subst f) (simp add: n)
  ultimately show ?thesis using s' n by auto
next
  case False
  with assms have "s' = StreamAlert_update (alertid alert) (clock E (ticks s)) (s\<lparr>ticks := Suc (ticks s)\<rparr>)"
    by (auto simp: sub_resolve_def utc_now_def)
  then have "s' = StreamAlert_update (alertid alert) (clock E (ticks s))
                  (s\<lparr>trace := trace s @ [], ticks := Suc (ticks s)\<rparr>)" by simp
  then show ?thesis by (intro exI[of _ "[]"]) simp
qed

lemma sub_resolve_idem:
  assumes "StreamAlert_fetch_where s (stream.streamid st) (alert_channel.subscriptionid sub) = alert # rest"
    and "sub_resolve E sub st s = (Normal, s1)"
  shows "sub_resolve E' sub st s1 = (Normal, s1)"
proof (cases "resolved_at alert")
  case None
  from sub_resolve_open[OF assms(1) None assms(2)] obtain new where
    "s1 = StreamAlert_update (alertid alert) (clock E (ticks s))
                  (s\<lparr>trace := trace s @ new, ticks := Suc (ticks s)\<rparr>)" by blast
  then have "StreamAlert_fetch_where s1 (stream.streamid st) (alert_channel.subscriptionid sub) =
     map (\<lambda>r. if alertid r = alertid alert then r\<lparr>resolved_at := Some (clock E (ticks s))\<rparr> else r) (alert # rest)"
    by (simp add: fetch_where_update assms(1))
  then show ?thesis by (simp add: sub_resolve_def)
next
  case (Some t)
  with assms have "s1 = s" by (simp add: sub_resolve_def)
  with assms Some show ?thesis by (simp add: sub_resolve_def)
qed

lemma resolve_message_alerts:
  "resolve_message E sub st a (s\<lparr>stream_alerts := xs\<rparr>) =
     (fst (resolve_message E sub st a s), (snd (resolve_message E sub st a s))\<lparr>stream_alerts := xs\<rparr>)"
  by (auto simp: resolve_message_def Let_def Streamer_fetch_def split: option.splits outcome.splits if_splits)

lemma sub_resolve_raised:
  assumes "sub_resolve E sub st s = (Raised e, s')"
  shows "s' = s\<lparr>trace := trace s'\<rparr>"
proof -
  from assms obtain alert where
    r: "resolve_message E sub st alert s = (Raised e, s')"
    by (auto simp: sub_resolve_def utc_now_def split: list.splits if_splits completion.splits prod.splits)
  from resolve_message_frame[OF r] show ?thesis .
qed

text \<open>Primary keys are distinct, so the rows after the first have another \<open>alertid\<close>.\<close>

lemma distinct_fetch_where:
  assumes "distinct (map alertid (stream_alerts s))"
    and "StreamAlert_fetch_where s a b = alert # rest"
  shows "\<forall>r\<in>set rest. alertid r \<noteq> alertid alert"
proof -
  have "distinct (map alertid (StreamAlert_fetch_where s a b))"
    unfolding StreamAlert_fetch_where_def using assms(1) by (rule distinct_map_filter)
  with assms(2) show ?thesis by (auto simp: image_iff)
qed

section \<open>Properties of resolution\<close>

text \<open>
  Claim C10. \<^verbatim>\<open>sub_resolve\<close> looks at the first alert row that the fetch for the
  (stream, subscription) pair returns and at no other. Whatever the call does and
  however it completes, the fetch returns the same rows after the first, each still in
  the table as it was, so an open one stays open. Replacing the table by any other in
  which the fetch begins with the same row changes neither the completion of the call
  nor the calls it makes: the later rows are not read. The alert ids are the primary
  key of the table and so are distinct.
\<close>

theorem sub_resolve_first_only:
  assumes "distinct (map alertid (stream_alerts s))"
    and "StreamAlert_fetch_where s (stream.streamid st) (alert_channel.subscriptionid sub) = alert # rest"
    and "sub_resolve E sub st s = (c, s')"
  shows "(\<exists>a'. StreamAlert_fetch_where s' (stream.streamid st) (alert_channel.subscriptionid sub) = a' # rest) \<and>
         (\<forall>r\<in>set rest. r \<in> set (stream_alerts s')) \<and>
         (\<forall>xs rest'. StreamAlert_fetch_where (s\<lparr>stream_alerts := xs\<rparr>) (stream.streamid st)
               (alert_channel.subscriptionid sub) = alert # rest' \<longrightarrow>
             fst (sub_resolve E sub st (s\<lparr>stream_alerts := xs\<rparr>)) = c \<and>
             trace (snd (sub_resolve E sub st (s\<lparr>stream_alerts := xs\<rparr>))) = trace s')"
proof -
  have ne: "\<forall>r\<in>set rest. alertid r \<noteq> alertid alert"
    using distinct_fetch_where[OF assms(1,2)] .
  have keep: "map (\<lambda>r. if alertid r = alertid alert then r\<lparr>resolved_at := Some t\<rparr> else r) rest = rest" for t
    using ne by (induction rest) auto
  have fetch': "\<exists>a'. StreamAlert_fetch_where s' (stream.streamid st) (alert_channel.subscriptionid sub) = a' # rest"
  proof (cases c)
    case Normal
    show ?thesis
    proof (cases "resolved_at alert")
      case None
      from sub_resolve_open[OF assms(2) None assms(3)[unfolded Normal]] obtain new where
        "s' = StreamAlert_update (alertid alert) (clock E (ticks s))
                  (s\<lparr>trace := trace s @ new, ticks := Suc (ticks s)\<rparr>)" by blast
      then show ?thesis by (simp add: fetch_where_update assms(2) keep)
    next
      case (Some t)
      with assms have "s' = s" by (simp add: sub_resolve_def)
      with assms(2) show ?thesis by simp
    qed
  next
    case (Raised e)
    from sub_resolve_raised[OF assms(3)[unfolded Raised]] have "s' = s\<lparr>trace := trace s'\<rparr>" .
    then have "StreamAlert_fetch_where s' (stream.streamid st) (alert_channel.subscriptionid sub) =
       StreamAlert_fetch_where s (stream.streamid st) (alert_channel.subscriptionid sub)"
      by (metis fetch_where_trace)
    with assms(2) show ?thesis by simp
  qed
  then obtain a' where a': "StreamAlert_fetch_where s' (stream.streamid st) (alert_channel.subscriptionid sub) = a' # rest"
    by blast
  have "set rest \<subseteq> set (stream_alerts s')"
  proof -
    have "set (StreamAlert_fetch_where s' (stream.streamid st) (alert_channel.subscriptionid sub)) \<subseteq> set (stream_alerts s')"
      by (auto simp: StreamAlert_fetch_where_def)
    with a' show ?thesis by auto
  qed
  moreover have "fst (sub_resolve E sub st (s\<lparr>stream_alerts := xs\<rparr>)) = c \<and>
             trace (snd (sub_resolve E sub st (s\<lparr>stream_alerts := xs\<rparr>))) = trace s'"
    if "StreamAlert_fetch_where (s\<lparr>stream_alerts := xs\<rparr>) (stream.streamid st)
               (alert_channel.subscriptionid sub) = alert # rest'" for xs rest'
    using that assms(2,3)
    by (auto simp: sub_resolve_def resolve_message_alerts utc_now_def StreamAlert_update_def
          split: if_splits prod.splits completion.splits)
  ultimately show ?thesis using a' by blast
qed

text \<open>
  Claim C4. Resolution is idempotent. Let a pair have an alert and let a first call of
  \<^verbatim>\<open>sub_resolve\<close> return. That call deletes or edits at most once, and afterwards the
  alert is resolved, at the time read by that call when it was open before. A second
  call, whatever the messaging service would answer (environment \<open>E'\<close>), returns with
  the state exactly as the first call left it: no further call, no change of the
  resolved time or of anything else.
\<close>

theorem sub_resolve_idempotent:
  assumes "StreamAlert_fetch_where s (stream.streamid st) (alert_channel.subscriptionid sub) = alert # rest"
    and "sub_resolve E sub st s = (Normal, s1)"
  shows "sub_resolve E' sub st s1 = (Normal, s1) \<and>
         (\<exists>new. trace s1 = trace s @ new \<and> length (filter is_mutation new) \<le> 1) \<and>
         (\<exists>a' rest'. StreamAlert_fetch_where s1 (stream.streamid st) (alert_channel.subscriptionid sub) = a' # rest' \<and>
            alertid a' = alertid alert \<and> resolved_at a' \<noteq> None \<and>
            (resolved_at alert = None \<longrightarrow> resolved_at a' = Some (clock E (ticks s))))"
proof (intro conjI)
  show "sub_resolve E' sub st s1 = (Normal, s1)"
    using assms by (rule sub_resolve_idem)
next
  show "\<exists>new. trace s1 = trace s @ new \<and> length (filter is_mutation new) \<le> 1"
  proof (cases "resolved_at alert")
    case None
    from sub_resolve_open[OF assms(1) None assms(2)] obtain new where
      "length (filter is_mutation new) \<le> 1"
      "s1 = StreamAlert_update (alertid alert) (clock E (ticks s))
                  (s\<lparr>trace := trace s @ new, ticks := Suc (ticks s)\<rparr>)" by blast
    then show ?thesis by (auto simp: StreamAlert_update_def)
  next
    case (Some t)
    with assms have "s1 = s" by (simp add: sub_resolve_def)
    then show ?thesis by simp
  qed
next
  show "\<exists>a' rest'. StreamAlert_fetch_where s1 (stream.streamid st) (alert_channel.subscriptionid sub) = a' # rest' \<and>
            alertid a' = alertid alert \<and> resolved_at a' \<noteq> None \<and>
            (resolved_at alert = None \<longrightarrow> resolved_at a' = Some (clock E (ticks s)))"
  proof (cases "resolved_at alert")
    case None
    from sub_resolve_open[OF assms(1) None assms(2)] obtain new where
      "s1 = StreamAlert_update (alertid alert) (clock E (ticks s))
                  (s\<lparr>trace := trace s @ new, ticks := Suc (ticks s)\<rparr>)" by blast
    then show ?thesis by (simp add: fetch_where_update assms(1))
  next
    case (Some t)
    with assms have "s1 = s" by (simp add: sub_resolve_def)
    with assms(1) Some show ?thesis by simp
  qed
qed


text \<open>
  Claim C8. Delete precedence. For an open alert of a subscription with
  \<^verbatim>\<open>end_delete\<close> set and an end message configured, whose channel exists and whose
  message is found, \<^verbatim>\<open>sub_resolve\<close> makes exactly two calls, the fetch of the message and
  its deletion, whatever the deletion answers; no edit is among its calls.
\<close>

theorem delete_precedence:
  assumes "StreamAlert_fetch_where s (stream.streamid st) (alert_channel.subscriptionid sub) = alert # rest"
    and "resolved_at alert = None"
    and "end_delete sub"
    and "truthy_opt (end_message_value sub)"
    and "get_channel E (trace s) (channelid sub) = Some ch"
    and "fetch_message E (trace s) (channelid sub) (messageid alert) = Returns ()"
  shows "trace (snd (sub_resolve E sub st s)) =
           trace s @ [FetchMessage (channelid sub) (messageid alert),
                      DeleteMessage (channelid sub) (messageid alert)] \<and>
         (\<forall>c m a. EditMessage c m a \<notin> set (drop (length (trace s)) (trace (snd (sub_resolve E sub st s)))))"
  using assms
  by (auto simp: sub_resolve_def resolve_message_def utc_now_def StreamAlert_update_def Let_def
        split: outcome.splits)

subsection \<open>The properties at work on the concrete scenarios\<close>

theorem sub_resolve_first_only_witness:
  "distinct (map alertid (stream_alerts s_two)) \<and>
   alert1 \<in> set (stream_alerts (snd (sub_resolve env0 sub_a st0 s_two))) \<and>
   resolved_at alert1 = None"
proof -
  have h1: "distinct (map alertid (stream_alerts s_two))" by code_simp
  have h2: "StreamAlert_fetch_where s_two (stream.streamid st0) (alert_channel.subscriptionid sub_a) = alert0 # [alert1]"
    by code_simp
  have h3: "sub_resolve env0 sub_a st0 s_two =
     (fst (sub_resolve env0 sub_a st0 s_two), snd (sub_resolve env0 sub_a st0 s_two))" by simp
  have "resolved_at alert1 = None" by code_simp
  with sub_resolve_first_only[OF h1 h2 h3] h1 show ?thesis by simp
qed

theorem sub_resolve_idempotent_witness:
  "fst (sub_resolve env0 sub_a st0 s_alert) = Normal \<and>
   sub_resolve env0 sub_a st0 (snd (sub_resolve env0 sub_a st0 s_alert)) =
     (Normal, snd (sub_resolve env0 sub_a st0 s_alert))"
proof -
  have h1: "StreamAlert_fetch_where s_alert (stream.streamid st0) (alert_channel.subscriptionid sub_a) = alert0 # []"
    by code_simp
  have n: "fst (sub_resolve env0 sub_a st0 s_alert) = Normal" by code_simp
  then have h2: "sub_resolve env0 sub_a st0 s_alert = (Normal, snd (sub_resolve env0 sub_a st0 s_alert))"
    by (metis prod.collapse)
  from sub_resolve_idempotent[OF h1 h2, of env0] n show ?thesis by simp
qed


theorem delete_precedence_witness:
  "trace (snd (sub_resolve env0 sub_a st0 s_alert)) = [FetchMessage 12 900, DeleteMessage 12 900]"
proof -
  have h1: "StreamAlert_fetch_where s_alert (stream.streamid st0) (alert_channel.subscriptionid sub_a) = alert0 # []"
    by code_simp
  have h2: "resolved_at alert0 = None" by code_simp
  have h3: "end_delete sub_a" by code_simp
  have h4: "truthy_opt (end_message_value sub_a)" by code_simp
  have h5: "get_channel env0 (trace s_alert) (channelid sub_a) = Some channel_ok" by code_simp
  have h6: "fetch_message env0 (trace s_alert) (channelid sub_a) (messageid alert0) = Returns ()" by code_simp
  have v: "trace s_alert = []" "channelid sub_a = 12" "messageid alert0 = 900" by code_simp+
  from delete_precedence[OF h1 h2 h3 h4 h5 h6] show ?thesis by (simp add: v)
qed

section \<open>Properties of dispatch\<close>

text \<open>The loop of \<^verbatim>\<open>on_stream_start\<close> over a list in two parts.\<close>

lemma fulfil_append:
  "fulfil E st (pre @ post) s =
     (case fulfil E st pre s of
        (Normal, s1) \<Rightarrow> fulfil E st post s1
      | (Raised e, s1) \<Rightarrow> (Raised e, s1))"
  by (induction pre arbitrary: s) (auto split: prod.splits completion.splits)

text \<open>
  Claim C6. In the dispatch of one start-transition, let the subscriptions of the
  streamer be \<open>pre @ sub # post\<close> and let the loop have passed \<open>pre\<close>. An exception that
  leaves \<^verbatim>\<open>sub_alert\<close> for \<open>sub\<close> is caught when it is the classified delivery failure,
  and the loop goes on with \<open>post\<close>; any other exception is raised again, and the
  dispatch ends in the state that \<open>sub\<close> left, with nothing of \<open>post\<close> handled. When
  \<open>sub\<close> returns, \<open>post\<close> is handled as well. The failure of the send itself is caught
  one level below: a classified failure makes \<^verbatim>\<open>sub_alert\<close> return, another exception
  leaves it.
\<close>

theorem dispatch_isolation:
  assumes "AlertChannel_fetch_where s (stream.streamerid st) = pre @ sub # post"
    and "fulfil E st pre s = (Normal, s1)"
  shows "(\<forall>e s2. sub_alert E sub st s1 = (Raised e, s2) \<longrightarrow>
            on_stream_start E st s =
              (if e = HTTPException then fulfil E st post s2 else (Raised e, s2))) \<and>
         (\<forall>s2. sub_alert E sub st s1 = (Normal, s2) \<longrightarrow>
            on_stream_start E st s = fulfil E st post s2) \<and>
         (\<forall>ch sr args e.
            get_channel E (trace s1) (channelid sub) = Some ch \<and> messageable ch \<and>
            send_messages ch \<and> embed_links ch \<and>
            Streamer_fetch s1 (stream.streamerid st) = Some sr \<and> \<not> paused sub \<and>
            value_to_args E (alert_channel.subscriptionid sub)
              (live_formatter st sr (live_message_value sub)) = Returns args \<and>
            send E (trace s1) (channelid sub) args = Raises e \<longrightarrow>
            sub_alert E sub st s1 =
              (if e = HTTPException then Normal else Raised e,
               s1\<lparr>trace := trace s1 @ [Send (channelid sub) args]\<rparr>))"
  using assms
  by (auto simp: on_stream_start_def fulfil_append sub_alert_def subscription_error_def Let_def)

theorem dispatch_isolation_witness:
  "sub_alert env0 sub_b st0 s_subs = (Normal, s_subs1) \<and>
   sub_alert env0 sub_c st0 s_subs1 = (Raised UnexpectedError, s_subs2) \<and>
   on_stream_start env0 st0 s_subs = (Raised UnexpectedError, s_subs2)"
proof -
  have h1: "AlertChannel_fetch_where s_subs (stream.streamerid st0) = [sub_b] @ sub_c # [sub_a]"
    by code_simp
  have a: "sub_alert env0 sub_b st0 s_subs = (Normal, s_subs1)" by code_simp
  then have h2: "fulfil env0 st0 [sub_b] s_subs = (Normal, s_subs1)" by simp
  have h3: "sub_alert env0 sub_c st0 s_subs1 = (Raised UnexpectedError, s_subs2)" by code_simp
  from dispatch_isolation[OF h1 h2] h3
  have "on_stream_start env0 st0 s_subs = (Raised UnexpectedError, s_subs2)"
    by auto
  with a h3 show ?thesis by (intro conjI)
qed

text \<open>One call of \<^verbatim>\<open>sub_alert\<close> adds no alert row or one, for its own pair.\<close>

lemma sub_alert_alerts:
  assumes "sub_alert E sub st s = (c, s')"
  shows "stream_alerts s' = stream_alerts s \<or>
      (\<exists>row. stream_alerts s' = stream_alerts s @ [row] \<and>
         stream_alert.streamid row = stream.streamid st \<and>
         stream_alert.subscriptionid row = alert_channel.subscriptionid sub)"
  using assms
  by (auto simp: sub_alert_def subscription_error_def utc_now_def StreamAlert_create_def Let_def
        split: option.splits outcome.splits if_splits)

lemma sub_alert_count:
  assumes "sub_alert E sub st s = (c, s')"
  shows "length (StreamAlert_fetch_where s' a b) \<le>
         length (StreamAlert_fetch_where s a b) +
           (if a = stream.streamid st \<and> b = alert_channel.subscriptionid sub then 1 else 0)"
  using sub_alert_alerts[OF assms]
  by (auto simp: StreamAlert_fetch_where_def)

lemma fulfil_count:
  assumes "distinct (map alert_channel.subscriptionid subs)"
    and "fulfil E st subs s = (c, s')"
  shows "length (StreamAlert_fetch_where s' a b) \<le>
         length (StreamAlert_fetch_where s a b) +
           (if a = stream.streamid st \<and> b \<in> alert_channel.subscriptionid ` set subs then 1 else 0)"
  using assms
proof (induction subs arbitrary: s)
  case Nil
  then show ?case by simp
next
  case (Cons sub subs)
  obtain c1 s1 where step: "sub_alert E sub st s = (c1, s1)"
    by (cases "sub_alert E sub st s")
  note one = sub_alert_count[OF step, of a b]
  show ?case
  proof (cases "c1 = Normal \<or> c1 = Raised HTTPException")
    case True
    with Cons.prems step have rest: "fulfil E st subs s1 = (c, s')"
      by (auto split: completion.splits)
    from Cons.prems have d: "distinct (map alert_channel.subscriptionid subs)"
      and notin: "alert_channel.subscriptionid sub \<notin> alert_channel.subscriptionid ` set subs"
      by auto
    from Cons.IH[OF d rest] one notin show ?thesis
      by (auto split: if_splits)
  next
    case False
    with Cons.prems step have "s' = s1"
      by (auto split: completion.splits if_splits)
    with one show ?thesis by (auto split: if_splits)
  qed
qed

text \<open>
  Claim C3, as amended. One dispatch invocation adds at most one alert row for a
  (stream, subscription) pair, and none for a pair of another stream; so a pair without
  an alert has at most one after the dispatch. The subscription ids are the primary
  key of their table and so are distinct. The dispatch does not look for a row that is
  already there: see the counterexample below for what a second invocation does.
\<close>

theorem one_alert_per_dispatch:
  assumes "distinct (map alert_channel.subscriptionid (alert_channels s))"
    and "on_stream_start E st s = (c, s')"
  shows "length (StreamAlert_fetch_where s' a b) \<le>
         length (StreamAlert_fetch_where s a b) + (if a = stream.streamid st then 1 else 0)"
proof -
  have "distinct (map alert_channel.subscriptionid (AlertChannel_fetch_where s (stream.streamerid st)))"
    unfolding AlertChannel_fetch_where_def using assms(1) by (rule distinct_map_filter)
  from fulfil_count[OF this assms(2)[unfolded on_stream_start_def], of a b]
  show ?thesis by (auto split: if_splits)
qed

theorem one_alert_per_dispatch_witness:
  "distinct (map alert_channel.subscriptionid (alert_channels s0)) \<and>
   length (StreamAlert_fetch_where (snd (on_stream_start env0 st0 s0)) 1 1) \<le> 1"
proof -
  have h1: "distinct (map alert_channel.subscriptionid (alert_channels s0))" by code_simp
  have h2: "on_stream_start env0 st0 s0 =
      (fst (on_stream_start env0 st0 s0), snd (on_stream_start env0 st0 s0))" by simp
  have e: "StreamAlert_fetch_where s0 1 1 = []" by code_simp
  have i: "stream.streamid st0 = 1" by (simp add: st0_def)
  from one_alert_per_dispatch[OF h1 h2, of 1 1] h1 show ?thesis by (simp add: e i)
qed

text \<open>
  The claim as it was stated fails: after a first dispatch has stored its alert, a second
  dispatch for the same stream sends again and stores a second row for the same pair.
\<close>

theorem second_dispatch_duplicates_alert:
  "on_stream_start env0 st0 s0 = (Normal, s_sent) \<and>
   \<not> length (StreamAlert_fetch_where (snd (on_stream_start env0 st0 s_sent))
         (stream.streamid st0) (alert_channel.subscriptionid sub_a)) \<le> 1"
proof -
  have 1: "on_stream_start env0 st0 s0 = (Normal, s_sent)" by code_simp
  have 2: "\<not> length (StreamAlert_fetch_where (snd (on_stream_start env0 st0 s_sent))
         (stream.streamid st0) (alert_channel.subscriptionid sub_a)) \<le> 1" by code_simp
  from 1 2 show ?thesis by (intro conjI)
qed

section \<open>Properties of the template engine\<close>

text \<open>
  Claim C9. For an unset or empty template both formatters give \<^verbatim>\<open>None\<close>, also when
  the streamer is missing or the stream has no end time. The output is a function of
  the template and the bindings alone: two streams and two streamers that agree on
  display name, login name and start time (and on the end time, for the end message)
  give the same output for the same template, whatever their other columns hold.
\<close>

theorem formatter_deterministic:
  "(\<not> truthy_opt t \<longrightarrow> live_formatter st sr t = None \<and> end_formatter st sro t = Returns None) \<and>
   (display_name sr = display_name sr' \<and> login_name sr = login_name sr' \<and>
    start_at st = start_at st' \<longrightarrow> live_formatter st sr t = live_formatter st' sr' t) \<and>
   (display_name sr = display_name sr' \<and> login_name sr = login_name sr' \<and>
    start_at st = start_at st' \<and> end_at st = end_at st' \<longrightarrow>
    end_formatter st (Some sr) t = end_formatter st' (Some sr') t)"
  by (auto simp: live_formatter_def end_formatter_def truthy_opt_def live_mapping_def end_mapping_def
        split: option.splits)

theorem formatter_deterministic_witness:
  "live_formatter st0 alice (Some (JDict [])) = None \<and>
   end_formatter (st0\<lparr>end_at := None\<rparr>) None (Some (JDict [])) = Returns None \<and>
   live_formatter st0 alice (Some default_live_message) =
     live_formatter (st0\<lparr>stream.streamid := 9, stream.title := ''other''\<rparr>) (alice\<lparr>userid := 8\<rparr>)
       (Some default_live_message)"
proof -
  have e: "\<not> truthy_opt (Some (JDict []))"
    by (simp add: truthy_opt_def)
  have b: "display_name alice = display_name (alice\<lparr>userid := 8\<rparr>) \<and>
           login_name alice = login_name (alice\<lparr>userid := 8\<rparr>) \<and>
           start_at st0 = start_at (st0\<lparr>stream.streamid := 9, stream.title := ''other''\<rparr>)"
    by simp
  note d1 = formatter_deterministic[of "Some (JDict [])" st0 alice None alice st0]
  note d2 = formatter_deterministic[of "Some (JDict [])" "st0\<lparr>end_at := None\<rparr>" alice None alice st0]
  note d3 = formatter_deterministic[of "Some default_live_message" st0 alice None "alice\<lparr>userid := 8\<rparr>"
      "st0\<lparr>stream.streamid := 9, stream.title := ''other''\<rparr>"]
  have 1: "live_formatter st0 alice (Some (JDict [])) = None"
    by (rule d1[THEN conjunct1, THEN mp, OF e, THEN conjunct1])
  have 2: "end_formatter (st0\<lparr>end_at := None\<rparr>) None (Some (JDict [])) = Returns None"
    by (rule d2[THEN conjunct1, THEN mp, OF e, THEN conjunct2])
  have 3: "live_formatter st0 alice (Some default_live_message) =
     live_formatter (st0\<lparr>stream.streamid := 9, stream.title := ''other''\<rparr>) (alice\<lparr>userid := 8\<rparr>)
       (Some default_live_message)"
    by (rule d3[THEN conjunct2, THEN conjunct1, THEN mp, OF b])
  from 1 2 3 show ?thesis by (intro conjI)
qed

section \<open>The poll cycle: what one turn does\<close>

text \<open>The keys of \<^verbatim>\<open>streaming\<close> are the user ids of the answer, each with its own stream.\<close>

lemma fold_update_keys:
  "fst ` set (fold (\<lambda>x d. AList.update (f x) x d) xs d) = fst ` set d \<union> f ` set xs"
  by (induction xs arbitrary: d) (auto simp: dom_update)

lemma fold_update_lookup:
  assumes "\<forall>k v. map_of d k = Some v \<longrightarrow> f v = k"
    and "map_of (fold (\<lambda>x d. AList.update (f x) x d) xs d) k = Some v"
  shows "f v = k"
  using assms
proof (induction xs arbitrary: d)
  case Nil
  then show ?case by simp
next
  case (Cons x xs)
  have "\<forall>k v. map_of (AList.update (f x) x d) k = Some v \<longrightarrow> f v = k"
    using Cons.prems(1) by (auto simp: update_conv')
  from Cons.IH[OF this] Cons.prems(2) show ?case by simp
qed

lemma collect_streaming_keys: "fst ` set (collect_streaming results) = user_id ` set results"
  by (simp add: collect_streaming_def fold_update_keys)

lemma collect_streaming_lookup:
  "map_of (collect_streaming results) k = Some ts \<Longrightarrow> user_id ts = k"
  unfolding collect_streaming_def
  by (rule fold_update_lookup[where d = "[]"]) auto

lemma start_stream_step:
  assumes "map_of streaming k = Some ts"
  shows "start_stream streaming k s =
     (Normal,
      s\<lparr>streams := streams s @ [fst (Stream_create ts s)],
        next_streamid := next_streamid s + 1,
        live_streams := AList.update k (fst (Stream_create ts s)) (live_streams s),
        event_tasks := event_tasks s @ [StreamStart (fst (Stream_create ts s))]\<rparr>)"
  using assms by (simp add: start_stream_def Stream_create_def Let_def)

lemma end_stream_step:
  assumes "map_of (live_streams s) k = Some row"
  shows "end_stream E k s =
     (Normal,
      s\<lparr>live_streams := AList.delete k (live_streams s),
        ticks := Suc (ticks s),
        streams := map (\<lambda>r. if stream.streamid r = stream.streamid row
                              then r\<lparr>end_at := Some (clock E (ticks s))\<rparr> else r) (streams s),
        event_tasks := event_tasks s @ [StreamEnd (row\<lparr>end_at := Some (clock E (ticks s))\<rparr>)]\<rparr>)"
  using assms by (simp add: end_stream_def Stream_update_def utc_now_def Let_def)

text \<open>The loop over the started streamers.\<close>

lemma start_loop:
  assumes "set ks \<subseteq> fst ` set streaming"
  shows "\<exists>s'. for_each (start_stream streaming) ks s = (Normal, s') \<and>
           fst ` set (live_streams s') = fst ` set (live_streams s) \<union> set ks \<and>
           (\<forall>k. k \<notin> set ks \<longrightarrow> map_of (live_streams s') k = map_of (live_streams s) k) \<and>
           (distinct (map fst (live_streams s)) \<longrightarrow> distinct (map fst (live_streams s'))) \<and>
           set (streams s) \<subseteq> set (streams s') \<and>
           set (event_tasks s) \<subseteq> set (event_tasks s') \<and>
           next_streamid s \<le> next_streamid s' \<and>
           (\<forall>k\<in>set ks. \<exists>row ts. map_of (live_streams s') k = Some row \<and>
               map_of streaming k = Some ts \<and>
               stream.streamerid row = user_id ts \<and> end_at row = None \<and>
               next_streamid s \<le> stream.streamid row \<and>
               row \<in> set (streams s') \<and> StreamStart row \<in> set (event_tasks s'))"
  using assms
proof (induction ks arbitrary: s)
  case Nil
  then show ?case by simp
next
  case (Cons k ks)
  from Cons.prems obtain ts where ts: "map_of streaming k = Some ts"
    by (auto simp: dom_map_of_conv_image_fst[symmetric])
  define row where "row = fst (Stream_create ts s)"
  define s1 where "s1 = s\<lparr>streams := streams s @ [row],
        next_streamid := next_streamid s + 1,
        live_streams := AList.update k row (live_streams s),
        event_tasks := event_tasks s @ [StreamStart row]\<rparr>"
  have step: "start_stream streaming k s = (Normal, s1)"
    unfolding s1_def row_def using ts by (rule start_stream_step)
  have row: "stream.streamerid row = user_id ts" "end_at row = None" "stream.streamid row = next_streamid s"
    by (simp_all add: row_def Stream_create_def Let_def)
  from Cons.prems have "set ks \<subseteq> fst ` set streaming" by simp
  from Cons.IH[OF this, of s1] obtain s' where
    loop: "for_each (start_stream streaming) ks s1 = (Normal, s')"
    and keys: "fst ` set (live_streams s') = fst ` set (live_streams s1) \<union> set ks"
    and other: "\<forall>k. k \<notin> set ks \<longrightarrow> map_of (live_streams s') k = map_of (live_streams s1) k"
    and dist: "distinct (map fst (live_streams s1)) \<longrightarrow> distinct (map fst (live_streams s'))"
    and mono: "set (streams s1) \<subseteq> set (streams s')" "set (event_tasks s1) \<subseteq> set (event_tasks s')"
      "next_streamid s1 \<le> next_streamid s'"
    and new: "\<forall>k\<in>set ks. \<exists>row ts. map_of (live_streams s') k = Some row \<and>
               map_of streaming k = Some ts \<and>
               stream.streamerid row = user_id ts \<and> end_at row = None \<and>
               next_streamid s1 \<le> stream.streamid row \<and>
               row \<in> set (streams s') \<and> StreamStart row \<in> set (event_tasks s')"
    by blast
  have s1: "live_streams s1 = AList.update k row (live_streams s)"
    "streams s1 = streams s @ [row]" "event_tasks s1 = event_tasks s @ [StreamStart row]"
    "next_streamid s1 = next_streamid s + 1"
    by (simp_all add: s1_def)
  have "for_each (start_stream streaming) (k # ks) s = (Normal, s')"
    using step loop by simp
  moreover have "fst ` set (live_streams s') = fst ` set (live_streams s) \<union> set (k # ks)"
    using keys by (auto simp: s1 dom_update)
  moreover have "\<forall>k'. k' \<notin> set (k # ks) \<longrightarrow> map_of (live_streams s') k' = map_of (live_streams s) k'"
    using other by (auto simp: s1 update_conv')
  moreover have "distinct (map fst (live_streams s)) \<longrightarrow> distinct (map fst (live_streams s'))"
    using dist by (auto simp: s1 distinct_update)
  moreover have "set (streams s) \<subseteq> set (streams s')" "set (event_tasks s) \<subseteq> set (event_tasks s')"
    "next_streamid s \<le> next_streamid s'"
    using mono by (auto simp: s1)
  moreover have "\<exists>row ts. map_of (live_streams s') k' = Some row \<and>
               map_of streaming k' = Some ts \<and>
               stream.streamerid row = user_id ts \<and> end_at row = None \<and>
               next_streamid s \<le> stream.streamid row \<and>
               row \<in> set (streams s') \<and> StreamStart row \<in> set (event_tasks s')"
    if "k' \<in> set (k # ks)" for k'
  proof (cases "k' \<in> set ks")
    case True
    with new obtain r t where "map_of (live_streams s') k' = Some r" "map_of streaming k' = Some t"
      "stream.streamerid r = user_id t" "end_at r = None" "next_streamid s1 \<le> stream.streamid r"
      "r \<in> set (streams s')" "StreamStart r \<in> set (event_tasks s')" by blast
    then show ?thesis by (intro exI[of _ r] exI[of _ t]) (simp add: s1)
  next
    case False
    with that have eq: "k' = k" by simp
    have "map_of (live_streams s') k = Some row"
      using other False eq by (simp add: s1 update_conv')
    moreover have "row \<in> set (streams s')" "StreamStart row \<in> set (event_tasks s')"
      using mono by (auto simp: s1)
    ultimately show ?thesis using ts row eq by auto
  qed
  ultimately show ?case by blast
qed

text \<open>The loop over the ended streamers.\<close>

lemma end_loop:
  assumes "distinct ks" and "set ks \<subseteq> fst ` set (live_streams s)"
  shows "\<exists>s'. for_each (end_stream E) ks s = (Normal, s') \<and>
           map_of (live_streams s') = (\<lambda>k. if k \<in> set ks then None else map_of (live_streams s) k) \<and>
           set (event_tasks s) \<subseteq> set (event_tasks s') \<and>
           (\<exists>g. streams s' = map g (streams s) \<and>
                (\<forall>r. stream.streamid (g r) = stream.streamid r \<and>
                     stream.streamerid (g r) = stream.streamerid r \<and>
                     (end_at r \<noteq> None \<longrightarrow> end_at (g r) \<noteq> None))) \<and>
           (\<forall>k\<in>set ks. \<exists>row t. map_of (live_streams s) k = Some row \<and>
               StreamEnd (row\<lparr>end_at := Some t\<rparr>) \<in> set (event_tasks s') \<and>
               (\<forall>r\<in>set (streams s'). stream.streamid r = stream.streamid row \<longrightarrow> end_at r \<noteq> None))"
  using assms
proof (induction ks arbitrary: s)
  case Nil
  show ?case by (auto intro: exI[of _ "\<lambda>r. r"])
next
  case (Cons k ks)
  from Cons.prems obtain row where row: "map_of (live_streams s) k = Some row"
    by (auto simp: dom_map_of_conv_image_fst[symmetric])
  define t where "t = clock E (ticks s)"
  define g1 :: "stream \<Rightarrow> stream" where "g1 = (\<lambda>r. if stream.streamid r = stream.streamid row
                              then r\<lparr>end_at := Some t\<rparr> else r)"
  define s1 where "s1 = s\<lparr>live_streams := AList.delete k (live_streams s),
        ticks := Suc (ticks s),
        streams := map g1 (streams s),
        event_tasks := event_tasks s @ [StreamEnd (row\<lparr>end_at := Some t\<rparr>)]\<rparr>"
  have step: "end_stream E k s = (Normal, s1)"
    unfolding s1_def g1_def t_def using row by (rule end_stream_step)
  have s1: "live_streams s1 = AList.delete k (live_streams s)"
    "streams s1 = map g1 (streams s)"
    "event_tasks s1 = event_tasks s @ [StreamEnd (row\<lparr>end_at := Some t\<rparr>)]"
    by (simp_all add: s1_def)
  have g1: "stream.streamid (g1 r) = stream.streamid r" "stream.streamerid (g1 r) = stream.streamerid r"
    "end_at r \<noteq> None \<longrightarrow> end_at (g1 r) \<noteq> None"
    "stream.streamid r = stream.streamid row \<longrightarrow> end_at (g1 r) \<noteq> None" for r
    by (simp_all add: g1_def)
  from Cons.prems have k: "k \<notin> set ks" and d: "distinct ks" by auto
  have "set ks \<subseteq> dom (map_of (live_streams s1))"
    using Cons.prems k by (auto simp: s1 delete_conv' dom_map_of_conv_image_fst)
  then have sub: "set ks \<subseteq> fst ` set (live_streams s1)"
    by (simp add: dom_map_of_conv_image_fst)
  from Cons.IH[OF d sub] obtain s' g where
    loop: "for_each (end_stream E) ks s1 = (Normal, s')"
    and look: "map_of (live_streams s') = (\<lambda>k. if k \<in> set ks then None else map_of (live_streams s1) k)"
    and ev: "set (event_tasks s1) \<subseteq> set (event_tasks s')"
    and tab: "streams s' = map g (streams s1)"
    and g: "\<forall>r. stream.streamid (g r) = stream.streamid r \<and>
                     stream.streamerid (g r) = stream.streamerid r \<and>
                     (end_at r \<noteq> None \<longrightarrow> end_at (g r) \<noteq> None)"
    and fin: "\<forall>k\<in>set ks. \<exists>row t. map_of (live_streams s1) k = Some row \<and>
               StreamEnd (row\<lparr>end_at := Some t\<rparr>) \<in> set (event_tasks s') \<and>
               (\<forall>r\<in>set (streams s'). stream.streamid r = stream.streamid row \<longrightarrow> end_at r \<noteq> None)"
    by blast
  have "for_each (end_stream E) (k # ks) s = (Normal, s')"
    using step loop by simp
  moreover have "map_of (live_streams s') =
      (\<lambda>k'. if k' \<in> set (k # ks) then None else map_of (live_streams s) k')"
    using look by (auto simp: s1 delete_conv' fun_eq_iff)
  moreover have "set (event_tasks s) \<subseteq> set (event_tasks s')"
    using ev by (auto simp: s1)
  moreover have "streams s' = map (g \<circ> g1) (streams s)"
    by (simp add: tab s1)
  moreover have "\<forall>r. stream.streamid ((g \<circ> g1) r) = stream.streamid r \<and>
                     stream.streamerid ((g \<circ> g1) r) = stream.streamerid r \<and>
                     (end_at r \<noteq> None \<longrightarrow> end_at ((g \<circ> g1) r) \<noteq> None)"
    using g g1 by simp
  moreover have "\<exists>row t. map_of (live_streams s) k' = Some row \<and>
               StreamEnd (row\<lparr>end_at := Some t\<rparr>) \<in> set (event_tasks s') \<and>
               (\<forall>r\<in>set (streams s'). stream.streamid r = stream.streamid row \<longrightarrow> end_at r \<noteq> None)"
    if "k' \<in> set (k # ks)" for k'
  proof (cases "k' = k")
    case True
    have "StreamEnd (row\<lparr>end_at := Some t\<rparr>) \<in> set (event_tasks s')"
      using ev by (auto simp: s1)
    moreover have "\<forall>r\<in>set (streams s'). stream.streamid r = stream.streamid row \<longrightarrow> end_at r \<noteq> None"
      using g g1 by (auto simp: tab s1)
    ultimately show ?thesis using row True by blast
  next
    case False
    with that have "k' \<in> set ks" by simp
    with fin obtain row' t' where "map_of (live_streams s1) k' = Some row'"
      "StreamEnd (row'\<lparr>end_at := Some t'\<rparr>) \<in> set (event_tasks s')"
      "\<forall>r\<in>set (streams s'). stream.streamid r = stream.streamid row' \<longrightarrow> end_at r \<noteq> None"
      by blast
    moreover from this(1) False have "map_of (live_streams s) k' = Some row'"
      by (simp add: s1 delete_conv')
    ultimately show ?thesis by blast
  qed
  ultimately show ?case by blast
qed

lemma started_ids_set:
  "set (started_ids streaming live) = fst ` set streaming - fst ` set live"
  by (auto simp: started_ids_def)

lemma ended_ids_set:
  "set (ended_ids streaming live) = fst ` set live - fst ` set streaming"
  by (auto simp: ended_ids_def)

lemma ended_ids_distinct:
  "distinct (map fst live) \<Longrightarrow> distinct (ended_ids streaming live)"
  by (simp add: ended_ids_def)

text \<open>What one poll cycle does when the platform answers.\<close>

lemma poll_cycle_effect:
  assumes ne: "watching s \<noteq> []"
    and dist: "distinct (map fst (live_streams s))"
    and q: "get_streams E (poll_block s) = Returns results"
  shows "\<exists>s'. poll_cycle E s = (Normal, s') \<and>
           fst ` set (live_streams s') = user_id ` set results \<and>
           (\<forall>k\<in>fst ` set (live_streams s) - user_id ` set results.
               \<exists>row t. map_of (live_streams s) k = Some row \<and>
                 StreamEnd (row\<lparr>end_at := Some t\<rparr>) \<in> set (event_tasks s') \<and>
                 (\<forall>r\<in>set (streams s'). stream.streamid r = stream.streamid row \<longrightarrow> end_at r \<noteq> None)) \<and>
           (\<forall>k\<in>user_id ` set results - fst ` set (live_streams s).
               \<exists>row. map_of (live_streams s') k = Some row \<and>
                 stream.streamerid row = k \<and> end_at row = None \<and>
                 next_streamid s \<le> stream.streamid row \<and>
                 (\<exists>r\<in>set (streams s'). stream.streamid r = stream.streamid row \<and> stream.streamerid r = k) \<and>
                 StreamStart row \<in> set (event_tasks s'))"
proof -
  define streaming where "streaming = collect_streaming results"
  define s0 where "s0 = s\<lparr>block_i := next_block_i s\<rparr>"
  define started where "started = started_ids streaming (live_streams s0)"
  define ended where "ended = ended_ids streaming (live_streams s0)"
  have s0: "live_streams s0 = live_streams s" "streams s0 = streams s"
    "event_tasks s0 = event_tasks s" "next_streamid s0 = next_streamid s"
    by (simp_all add: s0_def)
  have skeys: "fst ` set streaming = user_id ` set results"
    by (simp add: streaming_def collect_streaming_keys)
  have st: "set started = user_id ` set results - fst ` set (live_streams s)"
    by (simp add: started_def started_ids_set skeys s0)
  have en: "set ended = fst ` set (live_streams s) - user_id ` set results"
    by (simp add: ended_def ended_ids_set skeys s0)
  have "set started \<subseteq> fst ` set streaming"
    using st skeys by auto
  from start_loop[OF this, of s0] obtain s1 where
    l1: "for_each (start_stream streaming) started s0 = (Normal, s1)"
    and k1: "fst ` set (live_streams s1) = fst ` set (live_streams s0) \<union> set started"
    and o1: "\<forall>k. k \<notin> set started \<longrightarrow> map_of (live_streams s1) k = map_of (live_streams s0) k"
    and d1: "distinct (map fst (live_streams s0)) \<longrightarrow> distinct (map fst (live_streams s1))"
    and m1: "set (streams s0) \<subseteq> set (streams s1)" "set (event_tasks s0) \<subseteq> set (event_tasks s1)"
    and n1: "\<forall>k\<in>set started. \<exists>row ts. map_of (live_streams s1) k = Some row \<and>
               map_of streaming k = Some ts \<and>
               stream.streamerid row = user_id ts \<and> end_at row = None \<and>
               next_streamid s0 \<le> stream.streamid row \<and>
               row \<in> set (streams s1) \<and> StreamStart row \<in> set (event_tasks s1)"
    by blast
  have de: "distinct ended"
    unfolding ended_def using dist by (simp add: ended_ids_distinct s0)
  have "set ended \<subseteq> fst ` set (live_streams s1)"
    using en k1 by (auto simp: s0)
  from end_loop[OF de this, of E] obtain s2 g where
    l2: "for_each (end_stream E) ended s1 = (Normal, s2)"
    and look2: "map_of (live_streams s2) = (\<lambda>k. if k \<in> set ended then None else map_of (live_streams s1) k)"
    and ev2: "set (event_tasks s1) \<subseteq> set (event_tasks s2)"
    and tab2: "streams s2 = map g (streams s1)"
    and g: "\<forall>r. stream.streamid (g r) = stream.streamid r \<and>
                     stream.streamerid (g r) = stream.streamerid r \<and>
                     (end_at r \<noteq> None \<longrightarrow> end_at (g r) \<noteq> None)"
    and fin2: "\<forall>k\<in>set ended. \<exists>row t. map_of (live_streams s1) k = Some row \<and>
               StreamEnd (row\<lparr>end_at := Some t\<rparr>) \<in> set (event_tasks s2) \<and>
               (\<forall>r\<in>set (streams s2). stream.streamid r = stream.streamid row \<longrightarrow> end_at r \<noteq> None)"
    by blast
  have res: "poll_cycle E s = (Normal, s2)"
    using ne q l1 l2
    by (simp add: poll_cycle_def Let_def streaming_def started_def ended_def s0_def)
  have disj: "set started \<inter> set ended = {}"
    using st en by auto
  have "dom (map_of (live_streams s2)) = dom (map_of (live_streams s1)) - set ended"
    by (auto simp: look2 dom_def)
  then have keys2: "fst ` set (live_streams s2) = user_id ` set results"
    using k1 st en by (auto simp: dom_map_of_conv_image_fst s0)
  have ended_ok: "\<exists>row t. map_of (live_streams s) k = Some row \<and>
                 StreamEnd (row\<lparr>end_at := Some t\<rparr>) \<in> set (event_tasks s2) \<and>
                 (\<forall>r\<in>set (streams s2). stream.streamid r = stream.streamid row \<longrightarrow> end_at r \<noteq> None)"
    if "k \<in> fst ` set (live_streams s) - user_id ` set results" for k
  proof -
    from that en have ke: "k \<in> set ended" by simp
    with disj have "k \<notin> set started" by auto
    with o1 have "map_of (live_streams s1) k = map_of (live_streams s) k" by (simp add: s0)
    with fin2 ke show ?thesis by force
  qed
  have started_ok: "\<exists>row. map_of (live_streams s2) k = Some row \<and>
                 stream.streamerid row = k \<and> end_at row = None \<and>
                 next_streamid s \<le> stream.streamid row \<and>
                 (\<exists>r\<in>set (streams s2). stream.streamid r = stream.streamid row \<and> stream.streamerid r = k) \<and>
                 StreamStart row \<in> set (event_tasks s2)"
    if "k \<in> user_id ` set results - fst ` set (live_streams s)" for k
  proof -
    from that st have ks: "k \<in> set started" by simp
    with n1 obtain row ts where r: "map_of (live_streams s1) k = Some row"
      "map_of streaming k = Some ts" "stream.streamerid row = user_id ts" "end_at row = None"
      "next_streamid s0 \<le> stream.streamid row" "row \<in> set (streams s1)"
      "StreamStart row \<in> set (event_tasks s1)" by blast
    have "user_id ts = k"
      using r(2) unfolding streaming_def by (rule collect_streaming_lookup)
    moreover from ks disj have "k \<notin> set ended" by auto
    then have "map_of (live_streams s2) k = Some row" by (simp add: look2 r(1))
    moreover have "g row \<in> set (streams s2)" using r(6) by (simp add: tab2)
    moreover have "stream.streamid (g row) = stream.streamid row" "stream.streamerid (g row) = stream.streamerid row"
      using g by simp_all
    ultimately show ?thesis using r ev2 by (auto simp: s0)
  qed
  show ?thesis
  proof (intro exI[of _ s2] conjI ballI)
    show "poll_cycle E s = (Normal, s2)" by (rule res)
    show "fst ` set (live_streams s2) = user_id ` set results" by (rule keys2)
  qed (rule ended_ok, assumption, rule started_ok, assumption)
qed

section \<open>Properties of the poller\<close>

text \<open>
  Claim C1. In a poll cycle with a non-empty watch-set whose query is answered, the
  ended streamers are the keys of the whole live cache minus the keys of the answer
  for the selected page; the page itself plays no part. The platform answers for the
  ids it was asked about, so every streamer that is in the live cache and not on the
  selected page is ended in this cycle: it leaves the live cache, the task
  \<^verbatim>\<open>on_stream_end\<close> is forked for its stream with the end time set, and the rows of
  that stream in the table are closed. After the cycle the keys of the live cache are
  exactly the user ids of the answer. The keys of the live cache, a dictionary, are
  distinct.
\<close>

theorem ended_is_cache_minus_page:
  assumes "watching s \<noteq> []"
    and "distinct (map fst (live_streams s))"
    and "get_streams E (poll_block s) = Returns results"
    and "\<forall>ts\<in>set results. user_id ts \<in> set (poll_block s)"
  shows "set (ended_ids (collect_streaming results) (live_streams s)) =
           fst ` set (live_streams s) - user_id ` set results \<and>
         (\<exists>s'. poll_cycle E s = (Normal, s') \<and>
            fst ` set (live_streams s') = user_id ` set results \<and>
            (\<forall>k\<in>fst ` set (live_streams s). k \<notin> set (poll_block s) \<longrightarrow>
               k \<in> set (ended_ids (collect_streaming results) (live_streams s)) \<and>
               k \<notin> fst ` set (live_streams s') \<and>
               (\<exists>row t. map_of (live_streams s) k = Some row \<and>
                  StreamEnd (row\<lparr>end_at := Some t\<rparr>) \<in> set (event_tasks s') \<and>
                  (\<forall>r\<in>set (streams s'). stream.streamid r = stream.streamid row \<longrightarrow> end_at r \<noteq> None))))"
proof -
  have en: "set (ended_ids (collect_streaming results) (live_streams s)) =
           fst ` set (live_streams s) - user_id ` set results"
    by (simp add: ended_ids_set collect_streaming_keys)
  from poll_cycle_effect[OF assms(1,2,3)] obtain s' where
    res: "poll_cycle E s = (Normal, s')"
    and keys: "fst ` set (live_streams s') = user_id ` set results"
    and ended: "\<forall>k\<in>fst ` set (live_streams s) - user_id ` set results.
               \<exists>row t. map_of (live_streams s) k = Some row \<and>
                 StreamEnd (row\<lparr>end_at := Some t\<rparr>) \<in> set (event_tasks s') \<and>
                 (\<forall>r\<in>set (streams s'). stream.streamid r = stream.streamid row \<longrightarrow> end_at r \<noteq> None)"
    by blast
  have out: "k \<in> fst ` set (live_streams s) - user_id ` set results"
    if "k \<in> fst ` set (live_streams s)" "k \<notin> set (poll_block s)" for k
    using that assms(4) by auto
  have "k \<in> set (ended_ids (collect_streaming results) (live_streams s)) \<and>
               k \<notin> fst ` set (live_streams s') \<and>
               (\<exists>row t. map_of (live_streams s) k = Some row \<and>
                  StreamEnd (row\<lparr>end_at := Some t\<rparr>) \<in> set (event_tasks s') \<and>
                  (\<forall>r\<in>set (streams s'). stream.streamid r = stream.streamid row \<longrightarrow> end_at r \<noteq> None))"
    if "k \<in> fst ` set (live_streams s)" "k \<notin> set (poll_block s)" for k
  proof -
    note o = out[OF that]
    from o have "k \<in> set (ended_ids (collect_streaming results) (live_streams s))"
      by (simp only: en)
    moreover from o have "k \<notin> fst ` set (live_streams s')" by (simp add: keys)
    moreover from ended o have "\<exists>row t. map_of (live_streams s) k = Some row \<and>
                  StreamEnd (row\<lparr>end_at := Some t\<rparr>) \<in> set (event_tasks s') \<and>
                  (\<forall>r\<in>set (streams s'). stream.streamid r = stream.streamid row \<longrightarrow> end_at r \<noteq> None)"
      by (rule bspec)
    ultimately show ?thesis by (intro conjI)
  qed
  then have all: "\<forall>k\<in>fst ` set (live_streams s). k \<notin> set (poll_block s) \<longrightarrow>
               k \<in> set (ended_ids (collect_streaming results) (live_streams s)) \<and>
               k \<notin> fst ` set (live_streams s') \<and>
               (\<exists>row t. map_of (live_streams s) k = Some row \<and>
                  StreamEnd (row\<lparr>end_at := Some t\<rparr>) \<in> set (event_tasks s') \<and>
                  (\<forall>r\<in>set (streams s'). stream.streamid r = stream.streamid row \<longrightarrow> end_at r \<noteq> None))"
    by (intro ballI impI)
  show ?thesis
    by (intro conjI exI[of _ s']) (rule en, rule res, rule keys, rule all)
qed

theorem ended_is_cache_minus_page_witness:
  "length (watching s_big) = 101 \<and> poll_block s_big = [101] \<and>
   5 \<in> fst ` set (live_streams s_big) \<and>
   5 \<in> set (ended_ids (collect_streaming [tw 101]) (live_streams s_big)) \<and>
   5 \<notin> fst ` set (live_streams (snd (poll_cycle env0 s_big)))"
proof -
  have h1: "watching s_big \<noteq> []" by code_simp
  have h2: "distinct (map fst (live_streams s_big))" by code_simp
  have h3: "get_streams env0 (poll_block s_big) = Returns [tw 101]" by code_simp
  have b: "poll_block s_big = [101]" by code_simp
  have h4: "\<forall>ts\<in>set [tw 101]. user_id ts \<in> set (poll_block s_big)"
    by (simp add: b tw_def)
  have l: "length (watching s_big) = 101" by code_simp
  have m: "5 \<in> fst ` set (live_streams s_big)" by code_simp
  have o: "5 \<notin> set (poll_block s_big)" by (simp add: b)
  have u: "user_id (tw 101) = 101" by (simp add: tw_def)
  note T = ended_is_cache_minus_page[OF h1 h2 h3 h4]
  have e: "set (ended_ids (collect_streaming [tw 101]) (live_streams s_big)) =
           fst ` set (live_streams s_big) - user_id ` set [tw 101]"
    using T by (rule conjunct1)
  from T[THEN conjunct2] obtain s' where
    r: "poll_cycle env0 s_big = (Normal, s')"
    and k: "fst ` set (live_streams s') = user_id ` set [tw 101]"
    by (elim exE conjE)
  have 1: "5 \<in> set (ended_ids (collect_streaming [tw 101]) (live_streams s_big))"
    using m by (simp add: e u)
  have 2: "5 \<notin> fst ` set (live_streams (snd (poll_cycle env0 s_big)))"
    by (simp add: r k u)
  from l b m 1 2 show ?thesis by (intro conjI)
qed

text \<open>A paused subscription: \<^verbatim>\<open>sub_alert\<close> returns with the state as it was.\<close>

lemma paused_no_dispatch:
  assumes "paused sub"
  shows "sub_alert E sub st s = (Normal, s)"
  using assms
  by (auto simp: sub_alert_def subscription_error_def split: option.splits)

text \<open>
  Claim C7. Pause suppresses dispatch, not tracking. When the platform reports a
  streamer who is not in the live cache, the poll cycle creates an open Stream row for
  that streamer, puts it into the live cache and forks \<^verbatim>\<open>on_stream_start\<close> for it,
  whether or not a subscription is paused. For a subscription with \<^verbatim>\<open>paused\<close> set,
  \<^verbatim>\<open>sub_alert\<close> for that stream returns the state unchanged, in any state and whatever
  the messaging service would answer: no send call is made and no Alert row is created.
\<close>

theorem paused_tracks_without_alert:
  assumes "watching s \<noteq> []"
    and "distinct (map fst (live_streams s))"
    and "get_streams E (poll_block s) = Returns results"
    and "ts \<in> set results"
    and "user_id ts \<notin> fst ` set (live_streams s)"
    and "alert_channel.streamerid sub = user_id ts"
    and "paused sub"
  shows "\<exists>s' row. poll_cycle E s = (Normal, s') \<and>
           map_of (live_streams s') (user_id ts) = Some row \<and>
           stream.streamerid row = user_id ts \<and> end_at row = None \<and>
           next_streamid s \<le> stream.streamid row \<and>
           (\<exists>r\<in>set (streams s'). stream.streamid r = stream.streamid row \<and>
                stream.streamerid r = user_id ts) \<and>
           StreamStart row \<in> set (event_tasks s') \<and>
           (\<forall>E' t. sub_alert E' sub row t = (Normal, t))"
proof -
  from poll_cycle_effect[OF assms(1,2,3)] obtain s' where
    res: "poll_cycle E s = (Normal, s')"
    and started: "\<forall>k\<in>user_id ` set results - fst ` set (live_streams s).
               \<exists>row. map_of (live_streams s') k = Some row \<and>
                 stream.streamerid row = k \<and> end_at row = None \<and>
                 next_streamid s \<le> stream.streamid row \<and>
                 (\<exists>r\<in>set (streams s'). stream.streamid r = stream.streamid row \<and> stream.streamerid r = k) \<and>
                 StreamStart row \<in> set (event_tasks s')"
    by blast
  have "user_id ts \<in> user_id ` set results - fst ` set (live_streams s)"
    using assms(4,5) by simp
  with started obtain row where row: "map_of (live_streams s') (user_id ts) = Some row"
    "stream.streamerid row = user_id ts" "end_at row = None"
    "next_streamid s \<le> stream.streamid row"
    "\<exists>r\<in>set (streams s'). stream.streamid r = stream.streamid row \<and> stream.streamerid r = user_id ts"
    "StreamStart row \<in> set (event_tasks s')"
    by blast
  have "\<forall>E' t. sub_alert E' sub row t = (Normal, t)"
    using assms(7) by (simp add: paused_no_dispatch)
  with res row show ?thesis by (intro exI[of _ s'] exI[of _ row]) simp
qed

theorem paused_tracks_without_alert_witness:
  "paused sub_p \<and>
   (\<exists>row. map_of (live_streams (snd (poll_cycle env0 s_big))) 101 = Some row \<and>
      end_at row = None \<and> sub_alert env0 sub_p row s0 = (Normal, s0))"
proof -
  have h1: "watching s_big \<noteq> []" by code_simp
  have h2: "distinct (map fst (live_streams s_big))" by code_simp
  have h3: "get_streams env0 (poll_block s_big) = Returns [tw 101]" by code_simp
  have h4: "tw 101 \<in> set [tw 101]" by simp
  have u: "user_id (tw 101) = 101" by (simp add: tw_def)
  have h5: "user_id (tw 101) \<notin> fst ` set (live_streams s_big)" by code_simp
  have h6: "alert_channel.streamerid sub_p = user_id (tw 101)" by code_simp
  have h7: "paused sub_p" by code_simp
  from paused_tracks_without_alert[OF h1 h2 h3 h4 h5 h6 h7] obtain s' row where
    r: "poll_cycle env0 s_big = (Normal, s')"
    and m: "map_of (live_streams s') (user_id (tw 101)) = Some row"
    and e: "end_at row = None"
    and p: "\<forall>E' t. sub_alert E' sub_p row t = (Normal, t)"
    by (elim exE conjE)
  have "map_of (live_streams (snd (poll_cycle env0 s_big))) 101 = Some row"
    using m by (simp add: r u)
  moreover have "sub_alert env0 sub_p row s0 = (Normal, s0)"
    using p by blast
  ultimately show ?thesis using h7 e by blast
qed

text \<open>
  What \<^verbatim>\<open>load_subs\<close> leaves in the two caches: the watch-set holds the streamers of
  the subscriptions and nothing from the Stream rows, and the live cache holds the
  streamers of the rows whose end time is set.
\<close>

lemma load_subs_watching:
  "fst ` set (watching (load_subs s)) =
     userid ` set (streamers s) \<inter> alert_channel.streamerid ` set (alert_channels s)"
proof (cases "alert_channels s = []")
  case True
  then show ?thesis by (simp add: load_subs_def Let_def)
next
  case False
  then have "watching (load_subs s) =
      fold (\<lambda>sr w. AList.update (userid sr) sr w)
        (filter (\<lambda>sr. userid sr \<in> alert_channel.streamerid ` set (alert_channels s)) (streamers s)) []"
    by (simp add: load_subs_def Let_def)
  then have "fst ` set (watching (load_subs s)) =
      userid ` set (filter (\<lambda>sr. userid sr \<in> alert_channel.streamerid ` set (alert_channels s)) (streamers s))"
    by (simp only: fold_update_keys) simp
  then show ?thesis by auto
qed

lemma load_subs_live:
  "fst ` set (live_streams (load_subs s)) =
     stream.streamerid ` {r \<in> set (streams s). end_at r \<noteq> None}"
proof -
  have "live_streams (load_subs s) =
      fold (\<lambda>r d. AList.update (stream.streamerid r) r d) (filter (\<lambda>r. end_at r \<noteq> None) (streams s)) []"
    by (simp add: load_subs_def Stream_fetch_where_end_at_not_NULL_def Let_def)
  then have "fst ` set (live_streams (load_subs s)) =
      stream.streamerid ` set (filter (\<lambda>r. end_at r \<noteq> None) (streams s))"
    by (simp only: fold_update_keys) simp
  then show ?thesis by simp
qed

text \<open>
  Claim C2 says that after \<^verbatim>\<open>load_subs\<close> the watch-set is the union of the streamers
  of the subscriptions and of the open Stream rows, and that the live cache maps the
  streamers of the open rows to those rows. The code does neither. At a restart with a
  subscription to streamer 1, an open stream of streamer 2 and a closed stream of
  streamer 3, the watch-set is \<open>[1]\<close>, without streamer 2, and the live cache holds the
  closed stream of streamer 3 and not the open one of streamer 2.
\<close>

theorem load_subs_at_restart:
  "map fst (watching (load_subs s_restart)) = [1] \<and>
   live_streams (load_subs s_restart) =
     [(3, st0\<lparr>stream.streamid := 2, stream.streamerid := 3, end_at := Some 1900\<rparr>)]"
  by code_simp

end
